theory Spec2Isabelle
  imports Complex_Main "HOL-Library.Sublist"
begin

section \<open>JavaScript values\<close>

text \<open>
  The sampling module works on JavaScript numbers, strings and missing properties.
  A number is modelled as an exact rational or \<open>NaN\<close>: rounding, overflow, the
  infinities and the sign of zero are left out, so \<open>bucketSize\<close> and the products
  \<open>i * bucketSize\<close> are exact. A property value is a number, a string or
  \<open>undefined\<close>; other kinds of values are not modelled. Line numbers are those
  of the sampling source, which holds \<open>downsampleLTTB\<close>, \<open>adaptiveSample\<close>,
  \<open>sampleData\<close> and \<open>shouldShowDots\<close>.
\<close>

datatype number = NaN | Fin rat

datatype jsval = JUndefined | JNumber number | JString string

datatype error = TypeError | ResolutionError

text \<open>
  The language built-ins the module calls but does not define:
  \<open>new Date(s).getTime()\<close>, the conversion of a string to a number and the
  conversion of a number to a string. Every theorem holds for any choice of them.
\<close>

record builtins =
  getTime :: "string \<Rightarrow> number"
  stringToNumber :: "string \<Rightarrow> number"
  numberToString :: "number \<Rightarrow> string"

fun num_add :: "number \<Rightarrow> number \<Rightarrow> number" where
  "num_add (Fin a) (Fin b) = Fin (a + b)"
| "num_add _ _ = NaN"

fun num_sub :: "number \<Rightarrow> number \<Rightarrow> number" where
  "num_sub (Fin a) (Fin b) = Fin (a - b)"
| "num_sub _ _ = NaN"

fun num_mul :: "number \<Rightarrow> number \<Rightarrow> number" where
  "num_mul (Fin a) (Fin b) = Fin (a * b)"
| "num_mul _ _ = NaN"

text \<open>
  The module only ever divides by a count or by 2, and a count of zero comes with a
  sum of zero: the only quotient by zero is \<open>0 / 0\<close>, which is \<open>NaN\<close>.
\<close>

fun num_div :: "number \<Rightarrow> number \<Rightarrow> number" where
  "num_div (Fin a) (Fin b) = (if b = 0 then NaN else Fin (a / b))"
| "num_div _ _ = NaN"

fun num_abs :: "number \<Rightarrow> number" where
  "num_abs (Fin a) = Fin \<bar>a\<bar>"
| "num_abs NaN = NaN"

text \<open>The comparison \<open>a > b\<close>: false as soon as one side is \<open>NaN\<close>.\<close>

fun num_gt :: "number \<Rightarrow> number \<Rightarrow> bool" where
  "num_gt (Fin a) (Fin b) = (b < a)"
| "num_gt _ _ = False"

fun is_string :: "jsval \<Rightarrow> bool" where
  "is_string (JString s) = True"
| "is_string _ = False"

fun is_number :: "jsval \<Rightarrow> bool" where
  "is_number (JNumber x) = True"
| "is_number _ = False"

fun toNumber :: "builtins \<Rightarrow> jsval \<Rightarrow> number" where
  "toNumber b JUndefined = NaN"
| "toNumber b (JNumber x) = x"
| "toNumber b (JString s) = stringToNumber b s"

fun toString :: "builtins \<Rightarrow> jsval \<Rightarrow> string" where
  "toString b JUndefined = ''undefined''"
| "toString b (JNumber x) = numberToString b x"
| "toString b (JString s) = s"

text \<open>The operator \<open>+\<close> concatenates when one operand is a string.\<close>

definition js_add :: "builtins \<Rightarrow> jsval \<Rightarrow> jsval \<Rightarrow> jsval" where
  "js_add b u v =
     (if is_string u \<or> is_string v then JString (toString b u @ toString b v)
      else JNumber (num_add (toNumber b u) (toNumber b v)))"

definition js_sub :: "builtins \<Rightarrow> jsval \<Rightarrow> jsval \<Rightarrow> number" where
  "js_sub b u v = num_sub (toNumber b u) (toNumber b v)"

definition js_div :: "builtins \<Rightarrow> jsval \<Rightarrow> number \<Rightarrow> jsval" where
  "js_div b u d = JNumber (num_div (toNumber b u) d)"

section \<open>Records and arrays\<close>

text \<open>
  A \<open>DataPoint\<close> is the list of its properties in the order in which
  \<open>for (const key in point)\<close> enumerates them.
\<close>

type_synonym DataPoint = "(string \<times> jsval) list"

definition getProp :: "DataPoint \<Rightarrow> string \<Rightarrow> jsval" where
  "getProp p k = (case map_of p k of None \<Rightarrow> JUndefined | Some v \<Rightarrow> v)"

definition has_key :: "string \<Rightarrow> DataPoint \<Rightarrow> bool" where
  "has_key k p = (k \<in> set (map fst p))"

text \<open>
  Reading \<open>data[j]\<close>: \<open>None\<close> stands for \<open>undefined\<close>, the result of an index
  outside the array. Reading a property of \<open>undefined\<close> throws a \<open>TypeError\<close>.
\<close>

definition arr_get :: "'a list \<Rightarrow> int \<Rightarrow> 'a option" where
  "arr_get xs j = (if 0 \<le> j \<and> j < int (length xs) then Some (xs ! nat j) else None)"

text \<open>The indices \<open>j\<close> of a loop \<open>for (let j = a; j < b; j++)\<close>.\<close>

definition indexRange :: "int \<Rightarrow> int \<Rightarrow> int list" where
  "indexRange a b = [a..b - 1]"

section \<open>The generic sampler \<open>downsampleLTTB\<close>\<close>

definition triangleArea ::
  "builtins \<Rightarrow> jsval \<times> jsval \<Rightarrow> jsval \<times> jsval \<Rightarrow> jsval \<times> jsval \<Rightarrow> number" where
  "triangleArea b pointA pointB pointC =
     num_div
       (num_abs
          (num_sub
             (num_mul (js_sub b (fst pointA) (fst pointC)) (js_sub b (snd pointB) (snd pointA)))
             (num_mul (js_sub b (fst pointA) (fst pointB)) (js_sub b (snd pointC) (snd pointA)))))
       (Fin 2)"

text \<open>\<open>typeof v === 'string' ? new Date(v).getTime() : v\<close>\<close>

definition xCoord :: "builtins \<Rightarrow> jsval \<Rightarrow> jsval" where
  "xCoord b v = (case v of JString s \<Rightarrow> JNumber (getTime b s) | _ \<Rightarrow> v)"

text \<open>
  The tests \<open>!xKey\<close> and \<open>!yKey\<close>: an absent key and the empty string both count
  as not given.
\<close>

definition explicitKey :: "string option \<Rightarrow> string option" where
  "explicitKey k = (case k of None \<Rightarrow> None | Some s \<Rightarrow> (if s = [] then None else Some s))"

text \<open>Lines 62 to 64: the x key.\<close>

definition resolveXKey :: "DataPoint list \<Rightarrow> string option \<Rightarrow> error + string" where
  "resolveXKey data xKey =
     (case explicitKey xKey of
        Some k \<Rightarrow> Inr k
      | None \<Rightarrow>
          (case arr_get data 0 of
             None \<Rightarrow> Inl TypeError
           | Some p \<Rightarrow> Inr (if has_key ''time'' p then ''time'' else ''timestamp'')))"

text \<open>
  Lines 66 to 78: the y key. The scan stops at the first key that is not the x key
  and holds a number; \<open>for ... in\<close> over \<open>undefined\<close> runs no round. The test
  \<open>!yKey\<close> after the scan throws.
\<close>

definition firstNumericKey :: "DataPoint \<Rightarrow> string \<Rightarrow> string option" where
  "firstNumericKey p xKey = find (\<lambda>key. key \<noteq> xKey \<and> is_number (getProp p key)) (map fst p)"

definition scanYKey :: "DataPoint list \<Rightarrow> string \<Rightarrow> string option \<Rightarrow> string option" where
  "scanYKey data xKey yKey =
     (case explicitKey yKey of
        Some k \<Rightarrow> yKey
      | None \<Rightarrow>
          (case arr_get data 0 of
             None \<Rightarrow> yKey
           | Some p \<Rightarrow> (case firstNumericKey p xKey of None \<Rightarrow> yKey | Some key \<Rightarrow> Some key)))"

definition resolveYKey :: "DataPoint list \<Rightarrow> string \<Rightarrow> string option \<Rightarrow> error + string" where
  "resolveYKey data xKey yKey =
     (case explicitKey (scanYKey data xKey yKey) of
        None \<Rightarrow> Inl ResolutionError
      | Some k \<Rightarrow> Inr k)"

text \<open>Lines 93 to 98: the bucket of slot \<open>i\<close> and the next bucket.\<close>

definition bucketSize :: "nat \<Rightarrow> int \<Rightarrow> rat" where
  "bucketSize n threshold = (of_nat n - 2) / (of_int threshold - 2)"

definition bucketStart :: "rat \<Rightarrow> nat \<Rightarrow> int" where
  "bucketStart bs i = \<lfloor>of_nat i * bs\<rfloor> + 1"

definition bucketEnd :: "rat \<Rightarrow> nat \<Rightarrow> int" where
  "bucketEnd bs i = \<lfloor>(of_nat i + 1) * bs\<rfloor> + 1"

definition nextBucketStart :: "rat \<Rightarrow> nat \<Rightarrow> int" where
  "nextBucketStart bs i = \<lfloor>(of_nat i + 1) * bs\<rfloor> + 1"

definition nextBucketEnd :: "rat \<Rightarrow> nat \<Rightarrow> nat \<Rightarrow> int" where
  "nextBucketEnd bs n i = min (\<lfloor>(of_nat i + 2) * bs\<rfloor> + 1) (int n)"

text \<open>Lines 100 to 115: the sums over the next bucket and the count of its points.\<close>

fun nextBucketSum ::
  "builtins \<Rightarrow> DataPoint list \<Rightarrow> string \<Rightarrow> string \<Rightarrow> int list \<Rightarrow>
   jsval \<times> jsval \<times> nat \<Rightarrow> error + (jsval \<times> jsval \<times> nat)" where
  "nextBucketSum b data xKey yKey [] acc = Inr acc"
| "nextBucketSum b data xKey yKey (j # js) (avgX, avgY, avgRangeLength) =
     (case arr_get data j of
        None \<Rightarrow> Inl TypeError
      | Some p \<Rightarrow>
          nextBucketSum b data xKey yKey js
            (js_add b avgX (xCoord b (getProp p xKey)), js_add b avgY (getProp p yKey),
             avgRangeLength + 1))"

text \<open>Lines 117 to 120: the average, left at the sums when the range is empty.\<close>

definition nextBucketAvg ::
  "builtins \<Rightarrow> DataPoint list \<Rightarrow> string \<Rightarrow> string \<Rightarrow> int \<Rightarrow> int \<Rightarrow> error + (jsval \<times> jsval)" where
  "nextBucketAvg b data xKey yKey a e =
     (case nextBucketSum b data xKey yKey (indexRange a e) (JNumber (Fin 0), JNumber (Fin 0), 0) of
        Inl err \<Rightarrow> Inl err
      | Inr (avgX, avgY, avgRangeLength) \<Rightarrow>
          (if 0 < avgRangeLength
           then Inr (js_div b avgX (Fin (of_nat avgRangeLength)),
                     js_div b avgY (Fin (of_nat avgRangeLength)))
           else Inr (avgX, avgY)))"

text \<open>Lines 129 to 148: the scan of the bucket for the largest area.\<close>

fun bucketScan ::
  "builtins \<Rightarrow> DataPoint list \<Rightarrow> string \<Rightarrow> string \<Rightarrow> jsval \<times> jsval \<Rightarrow> jsval \<times> jsval \<Rightarrow>
   int list \<Rightarrow> number \<times> int \<Rightarrow> error + (number \<times> int)" where
  "bucketScan b data xKey yKey prevPt avgPt [] st = Inr st"
| "bucketScan b data xKey yKey prevPt avgPt (j # js) (maxArea, maxAreaIndex) =
     (case arr_get data j of
        None \<Rightarrow> Inl TypeError
      | Some p \<Rightarrow>
          (let area = triangleArea b prevPt (xCoord b (getProp p xKey), getProp p yKey) avgPt
           in bucketScan b data xKey yKey prevPt avgPt js
                (if num_gt area maxArea then (area, j) else (maxArea, maxAreaIndex))))"

text \<open>One round of the loop of line 91: the index chosen for slot \<open>i\<close>.\<close>

definition lttbSelect ::
  "builtins \<Rightarrow> DataPoint list \<Rightarrow> string \<Rightarrow> string \<Rightarrow> rat \<Rightarrow> nat \<Rightarrow> int \<Rightarrow> error + int" where
  "lttbSelect b data xKey yKey bs i prevSelectedIndex =
     (case nextBucketAvg b data xKey yKey
             (nextBucketStart bs i) (nextBucketEnd bs (length data) i) of
        Inl err \<Rightarrow> Inl err
      | Inr avgPt \<Rightarrow>
          (case arr_get data prevSelectedIndex of
             None \<Rightarrow> Inl TypeError
           | Some pp \<Rightarrow>
               (case bucketScan b data xKey yKey (xCoord b (getProp pp xKey), getProp pp yKey) avgPt
                       (indexRange (bucketStart bs i) (bucketEnd bs i))
                       (Fin (- 1), bucketStart bs i) of
                  Inl err \<Rightarrow> Inl err
                | Inr (maxArea, maxAreaIndex) \<Rightarrow> Inr maxAreaIndex)))"

text \<open>
  The loop of line 91 over the slots \<open>is\<close>, carrying the sampled array and
  \<open>prevSelectedIndex\<close>. A slot of the sampled array is \<open>None\<close> when the point
  pushed was \<open>undefined\<close>.
\<close>

fun lttbLoop ::
  "builtins \<Rightarrow> DataPoint list \<Rightarrow> string \<Rightarrow> string \<Rightarrow> rat \<Rightarrow> nat list \<Rightarrow>
   DataPoint option list \<times> int \<Rightarrow> error + (DataPoint option list \<times> int)" where
  "lttbLoop b data xKey yKey bs [] st = Inr st"
| "lttbLoop b data xKey yKey bs (i # is) (sampled, prevSelectedIndex) =
     (case lttbSelect b data xKey yKey bs i prevSelectedIndex of
        Inl err \<Rightarrow> Inl err
      | Inr maxAreaIndex \<Rightarrow>
          lttbLoop b data xKey yKey bs is (sampled @ [arr_get data maxAreaIndex], maxAreaIndex))"

definition downsampleLTTB ::
  "builtins \<Rightarrow> DataPoint list \<Rightarrow> int \<Rightarrow> string option \<Rightarrow> string option \<Rightarrow>
   error + DataPoint option list" where
  "downsampleLTTB b data threshold xKey yKey =
     (if int (length data) \<le> threshold then Inr (map Some data)
      else
        (let threshold' = max 3 threshold in
         case resolveXKey data xKey of
           Inl err \<Rightarrow> Inl err
         | Inr xKey' \<Rightarrow>
             (case resolveYKey data xKey' yKey of
                Inl err \<Rightarrow> Inl err
              | Inr yKey' \<Rightarrow>
                  (case lttbLoop b data xKey' yKey' (bucketSize (length data) threshold')
                          [0..<nat (threshold' - 2)] ([arr_get data 0], 0) of
                     Inl err \<Rightarrow> Inl err
                   | Inr (sampled, prevSelectedIndex) \<Rightarrow>
                       Inr (sampled @ [arr_get data (int (length data) - 1)])))))"

section \<open>The voltage sampler \<open>sampleData\<close>\<close>




text \<open>Lines 248 to 252 and 262 to 263: the ranges of slot \<open>i\<close>.\<close>

definition avgRangeStart :: "rat \<Rightarrow> nat \<Rightarrow> int" where
  "avgRangeStart bs i = \<lfloor>(of_nat i + 1) * bs\<rfloor> + 1"

definition avgRangeEnd :: "rat \<Rightarrow> nat \<Rightarrow> nat \<Rightarrow> int" where
  "avgRangeEnd bs n i =
     (let e = \<lfloor>(of_nat i + 2) * bs\<rfloor> + 1 in if e < int n then e else int n)"

definition avgRangeLength :: "rat \<Rightarrow> nat \<Rightarrow> nat \<Rightarrow> int" where
  "avgRangeLength bs n i = avgRangeEnd bs n i - avgRangeStart bs i"







section \<open>The policy layer\<close>

record SamplingConfig =
  threshold :: int
  targetPoints :: int

definition DEFAULT_SAMPLING_CONFIG :: SamplingConfig where
  "DEFAULT_SAMPLING_CONFIG = \<lparr> threshold = 500, targetPoints = 300 \<rparr>"

text \<open>\<open>Partial<SamplingConfig>\<close>: each field may be absent.\<close>

record PartialSamplingConfig =
  thresholdOpt :: "int option"
  targetPointsOpt :: "int option"

text \<open>The spread \<open>{ ...DEFAULT_SAMPLING_CONFIG, ...config }\<close> of line 210.\<close>

definition mergeConfig :: "SamplingConfig \<Rightarrow> PartialSamplingConfig \<Rightarrow> SamplingConfig" where
  "mergeConfig d c =
     \<lparr> threshold = (case thresholdOpt c of None \<Rightarrow> threshold d | Some v \<Rightarrow> v),
       targetPoints = (case targetPointsOpt c of None \<Rightarrow> targetPoints d | Some v \<Rightarrow> v) \<rparr>"

definition adaptiveSample ::
  "builtins \<Rightarrow> DataPoint list \<Rightarrow> PartialSamplingConfig \<Rightarrow> string option \<Rightarrow> string option \<Rightarrow>
   error + DataPoint option list" where
  "adaptiveSample b data config xKey yKey =
     (let c = mergeConfig DEFAULT_SAMPLING_CONFIG config in
      if int (length data) \<le> threshold c then Inr (map Some data)
      else downsampleLTTB b data (targetPoints c) xKey yKey)"

definition shouldShowDots :: "int \<Rightarrow> bool" where
  "shouldShowDots dataLength = (dataLength \<le> 100)"

section \<open>Example data\<close>

text \<open>
  A sample instance of the built-ins. It knows the epoch milliseconds of the
  timestamps used below and answers \<open>NaN\<close> for a string that is not a date. The two
  string conversions are never consulted on the examples, whose y fields hold numbers.
\<close>

definition exampleEpochs :: "(string \<times> rat) list" where
  "exampleEpochs =
     [(''1970-01-01T00:00:00.000Z'', 0), (''1970-01-01T00:00:01.000Z'', 1000),
      (''1970-01-01T00:00:02.000Z'', 2000), (''1970-01-01T00:00:03.000Z'', 3000),
      (''1970-01-01T00:00:04.000Z'', 4000)]"

definition exampleBuiltins :: builtins where
  "exampleBuiltins =
     \<lparr> getTime = (\<lambda>s. case map_of exampleEpochs s of None \<Rightarrow> NaN | Some ms \<Rightarrow> Fin ms),
       stringToNumber = (\<lambda>s. NaN),
       numberToString = (\<lambda>x. ''NaN'') \<rparr>"

text \<open>The point \<open>{ time: t, value: v }\<close>.\<close>

definition timeValue :: "rat \<Rightarrow> rat \<Rightarrow> DataPoint" where
  "timeValue t v = [(''time'', JNumber (Fin t)), (''value'', JNumber (Fin v))]"

text \<open>The point \<open>{ value: v }\<close>, with no x field at all.\<close>

definition valueOnly :: "rat \<Rightarrow> DataPoint" where
  "valueOnly v = [(''value'', JNumber (Fin v))]"

text \<open>The point \<open>{ "": u, time: t, v: w }\<close>, whose first field has the empty name.\<close>

definition unnamedFirst :: "rat \<Rightarrow> rat \<Rightarrow> rat \<Rightarrow> DataPoint" where
  "unnamedFirst u t w =
     [('''', JNumber (Fin u)), (''time'', JNumber (Fin t)), (''v'', JNumber (Fin w))]"


section \<open>The bucket boundaries\<close>

lemma bucketEnd_Suc: "bucketEnd bs i = bucketStart bs (Suc i)"
  by (simp add: bucketEnd_def bucketStart_def add.commute)

lemma nextBucketStart_Suc: "nextBucketStart bs i = bucketStart bs (Suc i)"
  by (simp add: nextBucketStart_def bucketStart_def add.commute)


lemma bucketStart_0: "bucketStart bs 0 = 1"
  by (simp add: bucketStart_def)

lemma bucketStart_Suc_cases:
  "bucketStart bs (Suc i) = bucketStart bs i + \<lfloor>bs\<rfloor> \<or>
   bucketStart bs (Suc i) = bucketStart bs i + \<lfloor>bs\<rfloor> + 1"
proof -
  have "of_nat (Suc i) * bs = of_nat i * bs + bs"
    by (simp add: algebra_simps)
  then have "\<lfloor>of_nat (Suc i) * bs\<rfloor> = \<lfloor>of_nat i * bs + bs\<rfloor>"
    by simp
  then show ?thesis
    unfolding bucketStart_def by (simp add: floor_add)
qed

lemma bucketStart_mono:
  assumes "0 \<le> bs" "i \<le> j"
  shows "bucketStart bs i \<le> bucketStart bs j"
proof -
  have "of_nat i * bs \<le> of_nat j * bs"
    using assms by (simp add: mult_right_mono)
  then show ?thesis
    unfolding bucketStart_def by (simp add: floor_mono)
qed

lemma bucketStart_strict:
  assumes "1 \<le> bs"
  shows "bucketStart bs i < bucketStart bs (Suc i)"
proof -
  have "1 \<le> \<lfloor>bs\<rfloor>" using assms by (simp add: le_floor_iff)
  then show ?thesis using bucketStart_Suc_cases[of bs i] by linarith
qed

lemma bucketStart_strict_mono:
  assumes "1 \<le> bs" "i < j"
  shows "bucketStart bs i < bucketStart bs j"
proof -
  have "bucketStart bs i < bucketStart bs (Suc i)" by (rule bucketStart_strict[OF assms(1)])
  also have "\<dots> \<le> bucketStart bs j"
    using assms by (intro bucketStart_mono) auto
  finally show ?thesis .
qed

lemma bucketSize_ge_1:
  assumes "3 \<le> t" "t \<le> int n"
  shows "1 \<le> bucketSize n t"
proof -
  have "(of_int t :: rat) \<le> of_int (int n)" using assms(2) by (simp only: of_int_le_iff)
  then have "(of_int t :: rat) - 2 \<le> of_nat n - 2" by simp
  moreover have "(0::rat) < of_int t - 2" using assms(1) by simp
  ultimately show ?thesis unfolding bucketSize_def by (simp add: le_divide_eq)
qed

lemma bucketSize_nonneg:
  assumes "3 \<le> t" "2 \<le> n"
  shows "0 \<le> bucketSize n t"
proof -
  have "(0::rat) \<le> of_nat n - 2" using assms(2) by simp
  moreover have "(0::rat) < of_int t - 2" using assms(1) by simp
  ultimately show ?thesis unfolding bucketSize_def by simp
qed

lemma bucketStart_last:
  assumes "3 \<le> t"
  shows "bucketStart (bucketSize n t) (nat (t - 2)) = int n - 1"
proof -
  have "(of_nat (nat (t - 2)) :: rat) = of_int t - 2" using assms by simp
  moreover have "(of_int t :: rat) - 2 \<noteq> 0" using assms by simp
  ultimately have "of_nat (nat (t - 2)) * bucketSize n t = of_int (int n - 2)"
    unfolding bucketSize_def by simp
  then show ?thesis unfolding bucketStart_def by (simp only: floor_of_int)
qed






section \<open>Arrays, index ranges and the loops of \<open>downsampleLTTB\<close>\<close>

lemma arr_get_Some: "0 \<le> j \<Longrightarrow> j < int (length xs) \<Longrightarrow> arr_get xs j = Some (xs ! nat j)"
  by (simp add: arr_get_def)

lemma arr_get_Nil: "arr_get [] j = None"
  by (simp add: arr_get_def)

lemma arr_get_first: "xs \<noteq> [] \<Longrightarrow> arr_get xs 0 = Some (hd xs)"
  by (cases xs) (simp_all add: arr_get_def)

lemma arr_get_last: "xs \<noteq> [] \<Longrightarrow> arr_get xs (int (length xs) - 1) = Some (last xs)"
proof -
  assume ne: "xs \<noteq> []"
  then have "nat (int (length xs) - 1) = length xs - 1" by simp
  moreover have "0 \<le> int (length xs) - 1" using ne by (cases xs) simp_all
  ultimately show ?thesis using ne by (simp add: arr_get_def last_conv_nth)
qed

lemma set_indexRange: "set (indexRange a e) = {a..<e}"
  by (auto simp: indexRange_def)


lemma indexRange_empty: "e \<le> a \<Longrightarrow> indexRange a e = []"
  by (simp add: indexRange_def)


lemma nextBucketSum_returns:
  assumes "\<forall>j\<in>set js. 0 \<le> j \<and> j < int (length data)"
  shows "\<exists>avgX avgY. nextBucketSum b data xKey yKey js (x, y, c) = Inr (avgX, avgY, c + length js)"
  using assms
proof (induction js arbitrary: x y c)
  case Nil
  then show ?case by simp
next
  case (Cons j js)
  have g: "arr_get data j = Some (data ! nat j)"
    using Cons.prems by (simp add: arr_get_Some)
  have rest: "\<forall>j\<in>set js. 0 \<le> j \<and> j < int (length data)"
    using Cons.prems by simp
  show ?case
    using Cons.IH [OF rest, of "js_add b x (xCoord b (getProp (data ! nat j) xKey))"
        "js_add b y (getProp (data ! nat j) yKey)" "c + 1"]
    by (simp add: g)
qed

lemma nextBucketSum_count:
  "nextBucketSum b data xKey yKey js (x, y, c) = Inr (avgX, avgY, c') \<Longrightarrow> c' = c + length js"
proof (induction js arbitrary: x y c)
  case Nil
  then show ?case by simp
next
  case (Cons j js)
  show ?case
  proof (cases "arr_get data j")
    case None
    with Cons.prems show ?thesis by simp
  next
    case (Some p)
    with Cons.prems have "nextBucketSum b data xKey yKey js
        (js_add b x (xCoord b (getProp p xKey)), js_add b y (getProp p yKey), c + 1)
        = Inr (avgX, avgY, c')" by simp
    then have "c' = c + 1 + length js" by (rule Cons.IH)
    then show ?thesis by simp
  qed
qed

lemma nextBucketSum_error:
  "nextBucketSum b data xKey yKey js (x, y, c) = Inl e \<Longrightarrow> e = TypeError"
proof (induction js arbitrary: x y c)
  case Nil
  then show ?case by simp
next
  case (Cons j js)
  show ?case
  proof (cases "arr_get data j")
    case None
    with Cons.prems show ?thesis by simp
  next
    case (Some p)
    with Cons.prems have "nextBucketSum b data xKey yKey js
        (js_add b x (xCoord b (getProp p xKey)), js_add b y (getProp p yKey), c + 1)
        = Inl e" by simp
    then show ?thesis by (rule Cons.IH)
  qed
qed

lemma nextBucketAvg_error:
  assumes "nextBucketAvg b data xKey yKey a e = Inl err"
  shows "err = TypeError"
proof (cases "nextBucketSum b data xKey yKey (indexRange a e) (JNumber (Fin 0), JNumber (Fin 0), 0)")
  case (Inl e')
  then have "e' = TypeError" by (rule nextBucketSum_error)
  with assms Inl show ?thesis by (simp add: nextBucketAvg_def)
next
  case (Inr r)
  obtain ax ay len where "r = (ax, ay, len)" by (cases r)
  with assms Inr show ?thesis by (simp add: nextBucketAvg_def split: if_splits)
qed

lemma nextBucketAvg_returns:
  assumes "0 \<le> a" "e \<le> int (length data)"
  shows "\<exists>avgPt. nextBucketAvg b data xKey yKey a e = Inr avgPt"
proof -
  have "\<forall>j\<in>set (indexRange a e). 0 \<le> j \<and> j < int (length data)"
    using assms by (auto simp: set_indexRange)
  then obtain ax ay where
    "nextBucketSum b data xKey yKey (indexRange a e) (JNumber (Fin 0), JNumber (Fin 0), 0)
     = Inr (ax, ay, 0 + length (indexRange a e))"
    using nextBucketSum_returns by blast
  then show ?thesis unfolding nextBucketAvg_def by simp
qed

lemma bucketScan_error:
  "bucketScan b data xKey yKey prevPt avgPt js st = Inl e \<Longrightarrow> e = TypeError"
proof (induction js arbitrary: st)
  case Nil
  then show ?case by simp
next
  case (Cons j js)
  obtain m k where "st = (m, k)" by (cases st)
  with Cons show ?case by (auto simp: Let_def split: option.splits if_splits)
qed

lemma bucketScan_index:
  "bucketScan b data xKey yKey prevPt avgPt js (m, k) = Inr (m', k') \<Longrightarrow> k' = k \<or> k' \<in> set js"
proof (induction js arbitrary: m k)
  case Nil
  then show ?case by simp
next
  case (Cons j js)
  then show ?case by (fastforce simp: Let_def split: option.splits if_splits)
qed

lemma bucketScan_returns:
  assumes "\<forall>j\<in>set js. 0 \<le> j \<and> j < int (length data)"
  shows "\<exists>r. bucketScan b data xKey yKey prevPt avgPt js st = Inr r"
  using assms
proof (induction js arbitrary: st)
  case Nil
  then show ?case by simp
next
  case (Cons j js)
  obtain m k where st: "st = (m, k)" by (cases st)
  have "arr_get data j = Some (data ! nat j)" using Cons.prems by (simp add: arr_get_Some)
  moreover have "\<forall>j\<in>set js. 0 \<le> j \<and> j < int (length data)" using Cons.prems by simp
  ultimately show ?case using Cons.IH st by (simp add: Let_def)
qed

lemma lttbSelect_error:
  "lttbSelect b data xKey yKey bs i p = Inl e \<Longrightarrow> e = TypeError"
  unfolding lttbSelect_def
  by (auto split: sum.splits option.splits dest: nextBucketAvg_error bucketScan_error)

lemma lttbSelect_index:
  assumes "lttbSelect b data xKey yKey bs i p = Inr k"
  shows "k = bucketStart bs i \<or> (bucketStart bs i \<le> k \<and> k < bucketEnd bs i)"
proof -
  from assms obtain prevPt avgPt m where
    "bucketScan b data xKey yKey prevPt avgPt (indexRange (bucketStart bs i) (bucketEnd bs i))
       (Fin (- 1), bucketStart bs i) = Inr (m, k)"
    unfolding lttbSelect_def by (auto split: sum.splits option.splits)
  then have "k = bucketStart bs i \<or> k \<in> set (indexRange (bucketStart bs i) (bucketEnd bs i))"
    by (rule bucketScan_index)
  then show ?thesis by (auto simp: set_indexRange)
qed

lemma lttbSelect_returns:
  assumes "0 \<le> p" "p < int (length data)"
    and "0 \<le> bucketStart bs i" "bucketEnd bs i \<le> int (length data)"
    and "0 \<le> nextBucketStart bs i"
  shows "\<exists>k. lttbSelect b data xKey yKey bs i p = Inr k"
proof -
  have "nextBucketEnd bs (length data) i \<le> int (length data)"
    by (simp add: nextBucketEnd_def)
  then obtain avgPt where a: "nextBucketAvg b data xKey yKey (nextBucketStart bs i)
      (nextBucketEnd bs (length data) i) = Inr avgPt"
    using nextBucketAvg_returns[OF assms(5)] by blast
  have pp: "arr_get data p = Some (data ! nat p)" using assms(1,2) by (rule arr_get_Some)
  have "\<forall>j\<in>set (indexRange (bucketStart bs i) (bucketEnd bs i)). 0 \<le> j \<and> j < int (length data)"
    using assms(3,4) by (auto simp: set_indexRange)
  then obtain r where
    "bucketScan b data xKey yKey (xCoord b (getProp (data ! nat p) xKey), getProp (data ! nat p) yKey) avgPt
       (indexRange (bucketStart bs i) (bucketEnd bs i)) (Fin (- 1), bucketStart bs i) = Inr r"
    using bucketScan_returns by blast
  then show ?thesis unfolding lttbSelect_def using a pp by (cases r) simp
qed

lemma lttbSelect_empty_data:
  "\<exists>e. lttbSelect b [] xKey yKey bs i p = Inl e"
  unfolding lttbSelect_def by (simp add: arr_get_Nil split: sum.splits)

lemma lttbLoop_error:
  "lttbLoop b data xKey yKey bs is st = Inl e \<Longrightarrow> e = TypeError"
proof (induction "is" arbitrary: st)
  case Nil
  then show ?case by simp
next
  case (Cons i "is")
  obtain s p where "st = (s, p)" by (cases st)
  with Cons show ?case by (auto split: sum.splits dest: lttbSelect_error)
qed

lemma lttbLoop_shape:
  "lttbLoop b data xKey yKey bs is (s, p) = Inr (s', p') \<Longrightarrow>
   \<exists>ks. length ks = length is \<and> s' = s @ map (arr_get data) ks"
proof (induction "is" arbitrary: s p)
  case Nil
  then show ?case by simp
next
  case (Cons i "is")
  from Cons.prems obtain k where
    k: "lttbSelect b data xKey yKey bs i p = Inr k"
    and rest: "lttbLoop b data xKey yKey bs is (s @ [arr_get data k], k) = Inr (s', p')"
    by (auto split: sum.splits)
  from Cons.IH[OF rest] obtain ks where
    "length ks = length is" "s' = (s @ [arr_get data k]) @ map (arr_get data) ks" by blast
  then have "length (k # ks) = length (i # is) \<and> s' = s @ map (arr_get data) (k # ks)" by simp
  then show ?case by blast
qed

lemma bucketStart_ge_1:
  assumes "0 \<le> bs"
  shows "1 \<le> bucketStart bs i"
  using bucketStart_mono[OF assms, of 0 i] by (simp add: bucketStart_0)

lemma bucketStart_le_last:
  assumes "3 \<le> t" "2 \<le> n" "i \<le> nat (t - 2)"
  shows "bucketStart (bucketSize n t) i \<le> int n - 1"
proof -
  have "0 \<le> bucketSize n t" using assms(1,2) by (rule bucketSize_nonneg)
  then have "bucketStart (bucketSize n t) i \<le> bucketStart (bucketSize n t) (nat (t - 2))"
    using assms(3) by (rule bucketStart_mono)
  then show ?thesis using bucketStart_last[OF assms(1), of n] by simp
qed

lemma lttbLoop_returns:
  assumes "2 \<le> length data" "3 \<le> t"
    and "\<forall>i\<in>set is. i < nat (t - 2)"
    and "0 \<le> p" "p < int (length data)"
  shows "\<exists>s' p'. lttbLoop b data xKey yKey (bucketSize (length data) t) is (s, p) = Inr (s', p')"
  using assms(3-)
proof (induction "is" arbitrary: s p)
  case Nil
  then show ?case by simp
next
  case (Cons i "is")
  let ?bs = "bucketSize (length data) t"
  have nn: "0 \<le> ?bs" using assms(2,1) by (rule bucketSize_nonneg)
  have i: "i < nat (t - 2)" using Cons.prems(1) by simp
  have lo: "1 \<le> bucketStart ?bs i" using nn by (rule bucketStart_ge_1)
  have hi: "bucketStart ?bs i \<le> int (length data) - 1"
    using assms(2,1) i by (intro bucketStart_le_last) auto
  have ehi: "bucketStart ?bs (Suc i) \<le> int (length data) - 1"
    using assms(2,1) i by (intro bucketStart_le_last) auto
  have elo: "1 \<le> bucketStart ?bs (Suc i)" using nn by (rule bucketStart_ge_1)
  obtain k where k: "lttbSelect b data xKey yKey ?bs i p = Inr k"
    using lttbSelect_returns[of p data ?bs i b xKey yKey] Cons.prems(2,3) lo ehi elo
    by (auto simp: bucketEnd_Suc nextBucketStart_Suc)
  have "k = bucketStart ?bs i \<or> (bucketStart ?bs i \<le> k \<and> k < bucketEnd ?bs i)"
    using k by (rule lttbSelect_index)
  then have kr: "0 \<le> k \<and> k < int (length data)"
    using lo hi ehi by (auto simp: bucketEnd_Suc)
  have "\<forall>i\<in>set is. i < nat (t - 2)" using Cons.prems(1) by simp
  then have "\<exists>s' p'. lttbLoop b data xKey yKey ?bs is (s @ [arr_get data k], k) = Inr (s', p')"
    using kr by (intro Cons.IH) auto
  then show ?case using k by simp
qed

lemma lttbSelect_single:
  assumes "length data = 1"
  shows "lttbSelect b data xKey yKey (bucketSize 1 3) 0 0 = Inr 1"
proof -
  have bs: "bucketSize 1 3 = - 1" by (simp add: bucketSize_def)
  have g: "arr_get data 0 = Some (data ! 0)" using assms by (simp add: arr_get_def)
  show ?thesis
    unfolding lttbSelect_def bs
    by (simp add: g assms nextBucketStart_def nextBucketEnd_def nextBucketAvg_def
        bucketStart_def bucketEnd_def indexRange_def)
qed

lemma lttbLoop_single:
  assumes "length data = 1"
  shows "lttbLoop b data xKey yKey (bucketSize 1 3) [0] (s, 0) = Inr (s @ [None], 1)"
  using lttbSelect_single[OF assms] assms by (simp add: arr_get_def)

lemma slots_Cons: "3 \<le> t \<Longrightarrow> [0..<nat (t - 2)] = 0 # [1..<nat (t - 2)]"
  by (simp add: upt_conv_Cons)

lemma lttbLoop_empty_data:
  "\<exists>e. lttbLoop b [] xKey yKey bs (i # is) st = Inl e"
proof -
  obtain s p where st: "st = (s, p)" by (cases st)
  obtain e where "lttbSelect b [] xKey yKey bs i p = Inl e"
    using lttbSelect_empty_data by blast
  then show ?thesis using st by simp
qed

section \<open>The shape of the sampled array\<close>

lemma downsampleLTTB_sampling:
  assumes "thr < int (length data)"
    and "resolveXKey data xKey = Inr xk" and "resolveYKey data xk yKey = Inr yk"
  shows "downsampleLTTB b data thr xKey yKey =
    (case lttbLoop b data xk yk (bucketSize (length data) (max 3 thr))
            [0..<nat (max 3 thr - 2)] ([arr_get data 0], 0) of
       Inl err \<Rightarrow> Inl err
     | Inr (sampled, p) \<Rightarrow> Inr (sampled @ [arr_get data (int (length data) - 1)]))"
  using assms by (simp add: downsampleLTTB_def Let_def)

lemma downsampleLTTB_key_error:
  assumes "thr < int (length data)"
    and "resolveXKey data xKey = Inl e \<or>
         (\<exists>xk. resolveXKey data xKey = Inr xk \<and> resolveYKey data xk yKey = Inl e)"
  shows "downsampleLTTB b data thr xKey yKey = Inl e"
  using assms by (auto simp: downsampleLTTB_def)

lemma downsampleLTTB_empty:
  assumes "thr < 0"
  shows "\<exists>e. downsampleLTTB b [] thr xKey yKey = Inl e"
proof (cases "resolveXKey [] xKey")
  case (Inl e)
  then show ?thesis using assms downsampleLTTB_key_error[of thr "[]" xKey e yKey b] by simp
next
  case xk: (Inr xk)
  show ?thesis
  proof (cases "resolveYKey [] xk yKey")
    case (Inl e)
    then show ?thesis using assms xk downsampleLTTB_key_error[of thr "[]" xKey e yKey b] by simp
  next
    case (Inr yk)
    have sl: "[0..<nat (max 3 thr - 2)] = 0 # [1..<nat (max 3 thr - 2)]"
      by (rule slots_Cons) simp
    obtain e where "lttbLoop b [] xk yk (bucketSize (length ([] :: DataPoint list)) (max 3 thr))
        [0..<nat (max 3 thr - 2)] ([arr_get [] 0], 0) = Inl e"
      unfolding sl using lttbLoop_empty_data by blast
    then show ?thesis
      using assms by (simp add: downsampleLTTB_sampling[OF _ xk Inr])
  qed
qed

lemma downsampleLTTB_passthrough:
  "int (length data) \<le> thr \<Longrightarrow> downsampleLTTB b data thr xKey yKey = Inr (map Some data)"
  by (simp add: downsampleLTTB_def)

lemma downsampleLTTB_shape:
  assumes "thr < int (length data)"
    and "downsampleLTTB b data thr xKey yKey = Inr out"
  shows "data \<noteq> [] \<and> (\<exists>ks. length ks = nat (max 3 thr - 2)
           \<and> out = arr_get data 0 # map (arr_get data) ks @ [arr_get data (int (length data) - 1)])"
proof -
  have ne: "data \<noteq> []"
  proof
    assume "data = []"
    then show False using assms downsampleLTTB_empty[of thr b xKey yKey] by auto
  qed
  obtain xk where xk: "resolveXKey data xKey = Inr xk"
    using assms by (cases "resolveXKey data xKey") (auto simp: downsampleLTTB_def)
  obtain yk where yk: "resolveYKey data xk yKey = Inr yk"
    using assms xk by (cases "resolveYKey data xk yKey") (auto simp: downsampleLTTB_def)
  let ?loop = "lttbLoop b data xk yk (bucketSize (length data) (max 3 thr))
            [0..<nat (max 3 thr - 2)] ([arr_get data 0], 0)"
  from assms(2) obtain s p where loop: "?loop = Inr (s, p)"
    and out: "out = s @ [arr_get data (int (length data) - 1)]"
    unfolding downsampleLTTB_sampling[OF assms(1) xk yk]
    by (cases ?loop) auto
  from lttbLoop_shape[OF loop] obtain ks where
    "length ks = length [0..<nat (max 3 thr - 2)]" "s = [arr_get data 0] @ map (arr_get data) ks"
    by blast
  then show ?thesis using ne out by auto
qed

lemma downsampleLTTB_returns:
  assumes "data \<noteq> []" "thr < int (length data)"
    and "resolveXKey data xKey = Inr xk" and "resolveYKey data xk yKey = Inr yk"
  shows "\<exists>out. downsampleLTTB b data thr xKey yKey = Inr out"
proof -
  let ?t = "max 3 thr"
  have "\<exists>s p. lttbLoop b data xk yk (bucketSize (length data) ?t)
            [0..<nat (?t - 2)] ([arr_get data 0], 0) = Inr (s, p)"
  proof (cases "2 \<le> length data")
    case True
    then show ?thesis
      by (intro lttbLoop_returns) auto
  next
    case False
    moreover have "length data \<noteq> 0" using assms(1) by simp
    ultimately have one: "length data = 1" by linarith
    then have t: "?t = 3" using assms(2) by simp
    show ?thesis unfolding t one using lttbLoop_single[OF one] by simp
  qed
  then show ?thesis
    unfolding downsampleLTTB_sampling[OF assms(2,3,4)] by auto
qed

lemma downsampleLTTB_length:
  assumes "thr < int (length data)"
    and "downsampleLTTB b data thr xKey yKey = Inr out"
  shows "int (length out) = max 3 thr"
proof -
  obtain ks where "length ks = nat (max 3 thr - 2)"
    "out = arr_get data 0 # map (arr_get data) ks @ [arr_get data (int (length data) - 1)]"
    using downsampleLTTB_shape[OF assms] by blast
  then show ?thesis by simp
qed

text \<open>
  Claim C1, at an input where the code departs from it. With two points and
  threshold 1 the threshold is raised to 3 and three points come back, the last one
  twice; the claimed length is \<open>min 2 (max 3 1) = 2\<close>.
\<close>

theorem downsampleLTTB_two_points:
  "downsampleLTTB b [timeValue 0 1, timeValue 1 2] 1 None None
     = Inr [Some (timeValue 0 1), Some (timeValue 1 2), Some (timeValue 1 2)]
   \<and> int (length [Some (timeValue 0 1), Some (timeValue 1 2), Some (timeValue 1 2)])
       \<noteq> min (int (length [timeValue 0 1, timeValue 1 2])) (max 3 1)"
proof -
  have "downsampleLTTB b [timeValue 0 1, timeValue 1 2] 1 None None
     = Inr [Some (timeValue 0 1), Some (timeValue 1 2), Some (timeValue 1 2)]"
    by code_simp
  then show ?thesis by simp
qed

text \<open>
  Claim C4. On the sampling path every returned array starts with the first input
  point and ends with the last one (and the input is then non-empty); and with a
  non-empty input and resolved keys the sampler does return.
\<close>

theorem downsampleLTTB_endpoints:
  assumes "thr < int (length data)"
  shows "(\<forall>out. downsampleLTTB b data thr xKey yKey = Inr out \<longrightarrow>
            data \<noteq> [] \<and> out \<noteq> [] \<and> hd out = Some (hd data) \<and> last out = Some (last data))
    \<and> (data \<noteq> [] \<and> resolveXKey data xKey = Inr xk \<and> resolveYKey data xk yKey = Inr yk \<longrightarrow>
         (\<exists>out. downsampleLTTB b data thr xKey yKey = Inr out))"
proof (intro conjI allI impI)
  fix out
  assume r: "downsampleLTTB b data thr xKey yKey = Inr out"
  from downsampleLTTB_shape[OF assms r] obtain ks where ne: "data \<noteq> []"
    and out: "out = arr_get data 0 # map (arr_get data) ks @ [arr_get data (int (length data) - 1)]"
    by blast
  show "data \<noteq> []" by (rule ne)
  show "out \<noteq> []" using out by simp
  show "hd out = Some (hd data)" using out ne by (simp add: arr_get_first)
  show "last out = Some (last data)" using out ne by (simp add: arr_get_last)
next
  assume "data \<noteq> [] \<and> resolveXKey data xKey = Inr xk \<and> resolveYKey data xk yKey = Inr yk"
  then show "\<exists>out. downsampleLTTB b data thr xKey yKey = Inr out"
    using assms downsampleLTTB_returns by blast
qed

theorem downsampleLTTB_endpoints_witness:
  "(3::int) < int (length [timeValue 0 1, timeValue 1 5, timeValue 2 2, timeValue 3 9])
   \<and> [timeValue 0 1, timeValue 1 5, timeValue 2 2, timeValue 3 9] \<noteq> []
   \<and> resolveXKey [timeValue 0 1, timeValue 1 5, timeValue 2 2, timeValue 3 9] None = Inr ''time''
   \<and> resolveYKey [timeValue 0 1, timeValue 1 5, timeValue 2 2, timeValue 3 9] ''time'' None
       = Inr ''value''
   \<and> (\<exists>out. downsampleLTTB exampleBuiltins
          [timeValue 0 1, timeValue 1 5, timeValue 2 2, timeValue 3 9] 3 None None = Inr out)
   \<and> downsampleLTTB exampleBuiltins [timeValue 0 1, timeValue 1 5, timeValue 2 2, timeValue 3 9]
        3 None None
       = Inr [Some (timeValue 0 1), Some (timeValue 2 2), Some (timeValue 3 9)]
   \<and> hd [Some (timeValue 0 1), Some (timeValue 2 2), Some (timeValue 3 9)]
       = Some (hd [timeValue 0 1, timeValue 1 5, timeValue 2 2, timeValue 3 9])
   \<and> last [Some (timeValue 0 1), Some (timeValue 2 2), Some (timeValue 3 9)]
       = Some (last [timeValue 0 1, timeValue 1 5, timeValue 2 2, timeValue 3 9])"
proof -
  let ?d = "[timeValue 0 1, timeValue 1 5, timeValue 2 2, timeValue 3 9]"
  let ?o = "[Some (timeValue 0 1), Some (timeValue 2 2), Some (timeValue 3 9)]"
  have h: "(3::int) < int (length ?d)" by simp
  have ne: "?d \<noteq> []" by simp
  have x: "resolveXKey ?d None = Inr ''time''" by code_simp
  have y: "resolveYKey ?d ''time'' None = Inr ''value''" by code_simp
  have r: "downsampleLTTB exampleBuiltins ?d 3 None None = Inr ?o" by code_simp
  note T = downsampleLTTB_endpoints [OF h, where b = exampleBuiltins and xKey = None
      and yKey = None and xk = "''time''" and yk = "''value''"]
  have e: "\<exists>out. downsampleLTTB exampleBuiltins ?d 3 None None = Inr out"
    using T [THEN conjunct2] ne x y by blast
  have "hd ?o = Some (hd ?d) \<and> last ?o = Some (last ?d)"
    using T [THEN conjunct1, THEN spec, THEN mp, OF r] by blast
  then show ?thesis using h ne x y e r by blast
qed

section \<open>Key resolution\<close>

lemma resolveYKey_error: "resolveYKey data xk yKey = Inl e \<Longrightarrow> e = ResolutionError"
  by (auto simp: resolveYKey_def split: option.splits)

lemma resolveXKey_default:
  assumes "data \<noteq> []" "explicitKey xKey = None"
  shows "resolveXKey data xKey = Inr (if has_key ''time'' (hd data) then ''time'' else ''timestamp'')"
  using assms by (simp add: resolveXKey_def arr_get_first)

text \<open>
  Claim C2 fails: four points \<open>{ value: v }\<close> have neither a \<open>time\<close> nor a
  \<open>timestamp\<close> field, and with threshold 3 and no keys given the sampler returns
  three of them instead of failing.
\<close>

theorem x_key_fallback_counterexample:
  "(3::int) < int (length [valueOnly 1, valueOnly 2, valueOnly 3, valueOnly 4])
   \<and> explicitKey None = None
   \<and> \<not> has_key ''time'' (valueOnly 1) \<and> \<not> has_key ''timestamp'' (valueOnly 1)
   \<and> downsampleLTTB exampleBuiltins [valueOnly 1, valueOnly 2, valueOnly 3, valueOnly 4] 3 None None
       = Inr [Some (valueOnly 1), Some (valueOnly 2), Some (valueOnly 4)]"
proof -
  have "downsampleLTTB exampleBuiltins [valueOnly 1, valueOnly 2, valueOnly 3, valueOnly 4] 3 None None
       = Inr [Some (valueOnly 1), Some (valueOnly 2), Some (valueOnly 4)]"
    by code_simp
  moreover have "\<not> has_key ''time'' (valueOnly 1) \<and> \<not> has_key ''timestamp'' (valueOnly 1)"
    by (simp add: has_key_def valueOnly_def)
  ultimately show ?thesis by (simp add: explicitKey_def)
qed

text \<open>
  Claim C2 as amended. On the sampling path with a non-empty input and no explicit x
  key, the x key is \<open>time\<close> when the first point has a field of that name and
  \<open>timestamp\<close> otherwise, also when the first point has neither field; the sampler
  then fails with \<open>ResolutionError\<close> exactly when the y key cannot be determined.
\<close>

theorem x_key_fallback:
  assumes "thr < int (length data)" and "data \<noteq> []" and "explicitKey xKey = None"
  shows "resolveXKey data xKey
           = Inr (if has_key ''time'' (hd data) then ''time'' else ''timestamp'')
    \<and> (downsampleLTTB b data thr xKey yKey = Inl ResolutionError) =
        (resolveYKey data (if has_key ''time'' (hd data) then ''time'' else ''timestamp'') yKey
           = Inl ResolutionError)"
proof -
  let ?xk = "if has_key ''time'' (hd data) then ''time'' else ''timestamp''"
  have xk: "resolveXKey data xKey = Inr ?xk"
    using assms(2,3) by (rule resolveXKey_default)
  have "(downsampleLTTB b data thr xKey yKey = Inl ResolutionError) =
        (resolveYKey data ?xk yKey = Inl ResolutionError)"
  proof (cases "resolveYKey data ?xk yKey")
    case (Inl e)
    then have "e = ResolutionError" by (rule resolveYKey_error)
    moreover have "downsampleLTTB b data thr xKey yKey = Inl e"
      using assms(1) xk Inl by (intro downsampleLTTB_key_error) auto
    ultimately show ?thesis using Inl by simp
  next
    case (Inr yk)
    then obtain out where "downsampleLTTB b data thr xKey yKey = Inr out"
      using downsampleLTTB_returns[OF assms(2,1) xk] by blast
    then show ?thesis using Inr by simp
  qed
  then show ?thesis using xk by simp
qed

theorem x_key_fallback_witness:
  "(3::int) < int (length [valueOnly 1, valueOnly 2, valueOnly 3, valueOnly 4])
   \<and> [valueOnly 1, valueOnly 2, valueOnly 3, valueOnly 4] \<noteq> []
   \<and> explicitKey None = None
   \<and> resolveXKey [valueOnly 1, valueOnly 2, valueOnly 3, valueOnly 4] None = Inr ''timestamp''
   \<and> resolveYKey [valueOnly 1, valueOnly 2, valueOnly 3, valueOnly 4] ''timestamp'' None
       = Inr ''value''
   \<and> downsampleLTTB exampleBuiltins [valueOnly 1, valueOnly 2, valueOnly 3, valueOnly 4] 3 None None
       \<noteq> Inl ResolutionError"
proof -
  let ?d = "[valueOnly 1, valueOnly 2, valueOnly 3, valueOnly 4]"
  have h1: "(3::int) < int (length ?d)" by simp
  have h2: "?d \<noteq> []" by simp
  have h3: "explicitKey None = None" by (simp add: explicitKey_def)
  have k: "\<not> has_key ''time'' (hd ?d)" by (simp add: has_key_def valueOnly_def)
  have y: "resolveYKey ?d ''timestamp'' None = Inr ''value''" by code_simp
  note T = x_key_fallback [OF h1 h2 h3, where b = exampleBuiltins and yKey = None]
  have "resolveXKey ?d None = Inr ''timestamp''"
    using T k by simp
  moreover have "downsampleLTTB exampleBuiltins ?d 3 None None \<noteq> Inl ResolutionError"
    using T k y by simp
  ultimately show ?thesis using h1 h2 h3 y by blast
qed

lemma resolveYKey_scan:
  assumes "data \<noteq> []" "explicitKey yKey = None"
  shows "resolveYKey data xk yKey =
    (case firstNumericKey (hd data) xk of
       None \<Rightarrow> Inl ResolutionError
     | Some key \<Rightarrow> (if key = [] then Inl ResolutionError else Inr key))"
  using assms
  by (simp add: resolveYKey_def scanYKey_def arr_get_first explicitKey_def split: option.splits)

lemma firstNumericKey_None:
  "(firstNumericKey p xk = None) = (\<forall>key\<in>set (map fst p). key = xk \<or> \<not> is_number (getProp p key))"
  by (auto simp: firstNumericKey_def find_None_iff)

lemma firstNumericKey_Some:
  "(firstNumericKey p xk = Some key) =
     (\<exists>i<length (map fst p).
        (map fst p ! i \<noteq> xk \<and> is_number (getProp p (map fst p ! i)))
        \<and> key = map fst p ! i
        \<and> (\<forall>j<i. \<not> (map fst p ! j \<noteq> xk \<and> is_number (getProp p (map fst p ! j)))))"
  unfolding firstNumericKey_def by (rule find_Some_iff)

text \<open>
  Claim C8, at an input where the code departs from it. The first field of the first
  point has the empty name and holds a number, so a numeric field other than the x
  key exists and is first in order; the scan picks it, and the test \<open>!yKey\<close> that
  follows takes the empty name for a missing key and throws.
\<close>

theorem y_key_empty_name:
  "firstNumericKey (unnamedFirst 1 0 2) ''time'' = Some ''''
   \<and> downsampleLTTB b
        [unnamedFirst 1 0 2, unnamedFirst 1 1 3, unnamedFirst 1 2 4, unnamedFirst 1 3 5]
        3 None None
       = Inl ResolutionError"
proof -
  have "firstNumericKey (unnamedFirst 1 0 2) ''time'' = Some ''''"
    by code_simp
  moreover have "downsampleLTTB b
        [unnamedFirst 1 0 2, unnamedFirst 1 1 3, unnamedFirst 1 2 4, unnamedFirst 1 3 5]
        3 None None = Inl ResolutionError"
    by code_simp
  ultimately show ?thesis by simp
qed

section \<open>The adaptive policy\<close>

text \<open>
  Claim C3 fails: with \<open>threshold = 3\<close>, \<open>targetPoints = 10\<close> and four points the
  length is \<open>threshold + 1\<close>, and \<open>adaptiveSample\<close> returns the four points, not
  ten: \<open>downsampleLTTB\<close> passes an input through that is no longer than its target.
\<close>

theorem adaptiveSample_boundary_counterexample:
  "int (length [timeValue 0 1, timeValue 1 5, timeValue 2 2, timeValue 3 9]) = 3 + 1
   \<and> adaptiveSample exampleBuiltins [timeValue 0 1, timeValue 1 5, timeValue 2 2, timeValue 3 9]
        \<lparr> thresholdOpt = Some 3, targetPointsOpt = Some 10 \<rparr> None None
       = Inr (map Some [timeValue 0 1, timeValue 1 5, timeValue 2 2, timeValue 3 9])
   \<and> int (length (map Some [timeValue 0 1, timeValue 1 5, timeValue 2 2, timeValue 3 9])) \<noteq> 10"
proof -
  have "adaptiveSample exampleBuiltins [timeValue 0 1, timeValue 1 5, timeValue 2 2, timeValue 3 9]
        \<lparr> thresholdOpt = Some 3, targetPointsOpt = Some 10 \<rparr> None None
       = Inr (map Some [timeValue 0 1, timeValue 1 5, timeValue 2 2, timeValue 3 9])"
    by code_simp
  then show ?thesis by simp
qed

text \<open>
  Claim C3 as amended. At a length equal to the threshold the data comes back
  unchanged; at a length of threshold plus one, with
  \<open>3 \<le> targetPoints \<le> threshold\<close> and resolved keys, exactly \<open>targetPoints\<close>
  items come back; the defaults are 500 and 300.
\<close>

theorem adaptiveSample_boundary:
  "(int (length data) = threshold (mergeConfig DEFAULT_SAMPLING_CONFIG config) \<longrightarrow>
      adaptiveSample b data config xKey yKey = Inr (map Some data))
   \<and> (int (length data) = threshold (mergeConfig DEFAULT_SAMPLING_CONFIG config) + 1
        \<and> 3 \<le> targetPoints (mergeConfig DEFAULT_SAMPLING_CONFIG config)
        \<and> targetPoints (mergeConfig DEFAULT_SAMPLING_CONFIG config)
             \<le> threshold (mergeConfig DEFAULT_SAMPLING_CONFIG config)
        \<and> resolveXKey data xKey = Inr xk \<and> resolveYKey data xk yKey = Inr yk \<longrightarrow>
      (\<exists>out. adaptiveSample b data config xKey yKey = Inr out
         \<and> int (length out) = targetPoints (mergeConfig DEFAULT_SAMPLING_CONFIG config)))
   \<and> mergeConfig DEFAULT_SAMPLING_CONFIG \<lparr> thresholdOpt = None, targetPointsOpt = None \<rparr>
       = \<lparr> threshold = 500, targetPoints = 300 \<rparr>"
proof (intro conjI impI)
  let ?c = "mergeConfig DEFAULT_SAMPLING_CONFIG config"
  show "adaptiveSample b data config xKey yKey = Inr (map Some data)"
    if "int (length data) = threshold ?c"
    using that by (simp add: adaptiveSample_def Let_def)
  show "\<exists>out. adaptiveSample b data config xKey yKey = Inr out
         \<and> int (length out) = targetPoints ?c"
    if h: "int (length data) = threshold ?c + 1 \<and> 3 \<le> targetPoints ?c
        \<and> targetPoints ?c \<le> threshold ?c
        \<and> resolveXKey data xKey = Inr xk \<and> resolveYKey data xk yKey = Inr yk"
  proof -
    have lt: "targetPoints ?c < int (length data)" using h by simp
    have ne: "data \<noteq> []" using h by auto
    have a: "adaptiveSample b data config xKey yKey
               = downsampleLTTB b data (targetPoints ?c) xKey yKey"
      using h by (simp add: adaptiveSample_def Let_def)
    obtain out where out: "downsampleLTTB b data (targetPoints ?c) xKey yKey = Inr out"
      using downsampleLTTB_returns[OF ne lt] h by blast
    have "int (length out) = max 3 (targetPoints ?c)"
      using lt out by (rule downsampleLTTB_length)
    then show ?thesis using a out h by simp
  qed
  show "mergeConfig DEFAULT_SAMPLING_CONFIG \<lparr> thresholdOpt = None, targetPointsOpt = None \<rparr>
       = \<lparr> threshold = 500, targetPoints = 300 \<rparr>"
    by (simp add: mergeConfig_def DEFAULT_SAMPLING_CONFIG_def)
qed

theorem adaptiveSample_boundary_witness:
  "int (length [timeValue 0 1, timeValue 1 5, timeValue 2 2, timeValue 3 9])
     = threshold (mergeConfig DEFAULT_SAMPLING_CONFIG
         \<lparr> thresholdOpt = Some 3, targetPointsOpt = Some 3 \<rparr>) + 1
   \<and> (3::int) \<le> targetPoints (mergeConfig DEFAULT_SAMPLING_CONFIG
         \<lparr> thresholdOpt = Some 3, targetPointsOpt = Some 3 \<rparr>)
   \<and> resolveXKey [timeValue 0 1, timeValue 1 5, timeValue 2 2, timeValue 3 9] None = Inr ''time''
   \<and> resolveYKey [timeValue 0 1, timeValue 1 5, timeValue 2 2, timeValue 3 9] ''time'' None
       = Inr ''value''
   \<and> (\<exists>out. adaptiveSample exampleBuiltins
          [timeValue 0 1, timeValue 1 5, timeValue 2 2, timeValue 3 9]
          \<lparr> thresholdOpt = Some 3, targetPointsOpt = Some 3 \<rparr> None None = Inr out
        \<and> int (length out) = 3)
   \<and> adaptiveSample exampleBuiltins [timeValue 0 1, timeValue 1 5, timeValue 2 2]
          \<lparr> thresholdOpt = Some 3, targetPointsOpt = Some 3 \<rparr> None None
       = Inr (map Some [timeValue 0 1, timeValue 1 5, timeValue 2 2])"
proof -
  let ?d = "[timeValue 0 1, timeValue 1 5, timeValue 2 2, timeValue 3 9]"
  let ?d3 = "[timeValue 0 1, timeValue 1 5, timeValue 2 2]"
  let ?cfg = "\<lparr> thresholdOpt = Some 3, targetPointsOpt = Some 3 \<rparr>"
  have c: "threshold (mergeConfig DEFAULT_SAMPLING_CONFIG ?cfg) = 3"
    "targetPoints (mergeConfig DEFAULT_SAMPLING_CONFIG ?cfg) = 3"
    by (simp_all add: mergeConfig_def)
  have x: "resolveXKey ?d None = Inr ''time''" by code_simp
  have y: "resolveYKey ?d ''time'' None = Inr ''value''" by code_simp
  have "\<exists>out. adaptiveSample exampleBuiltins ?d ?cfg None None = Inr out \<and> int (length out) = 3"
    using adaptiveSample_boundary [where data = ?d and config = ?cfg and b = exampleBuiltins
        and xKey = None and yKey = None and xk = "''time''" and yk = "''value''",
        THEN conjunct2, THEN conjunct1] c x y
    by simp
  moreover have "adaptiveSample exampleBuiltins ?d3 ?cfg None None = Inr (map Some ?d3)"
    using adaptiveSample_boundary [where data = ?d3 and config = ?cfg and b = exampleBuiltins
        and xKey = None and yKey = None, THEN conjunct1] c
    by simp
  ultimately show ?thesis using c x y by simp
qed

section \<open>Order of the sampled points\<close>

text \<open>
  Claim C5, at an input where the code departs from it. With two points and
  threshold 0 the sampler emits the source indices 0, 1, 1: the last point comes
  twice, the indices do not increase strictly and the output is not a subsequence
  of the input.
\<close>

theorem downsampleLTTB_repeats_last:
  "downsampleLTTB b [timeValue 0 1, timeValue 1 2] 0 None None
     = Inr [Some (timeValue 0 1), Some (timeValue 1 2), Some (timeValue 1 2)]
   \<and> \<not> subseq [Some (timeValue 0 1), Some (timeValue 1 2), Some (timeValue 1 2)]
         (map Some [timeValue 0 1, timeValue 1 2])"
proof -
  have "downsampleLTTB b [timeValue 0 1, timeValue 1 2] 0 None None
     = Inr [Some (timeValue 0 1), Some (timeValue 1 2), Some (timeValue 1 2)]"
    by code_simp
  moreover have "\<not> subseq [Some (timeValue 0 1), Some (timeValue 1 2), Some (timeValue 1 2)]
         (map Some [timeValue 0 1, timeValue 1 2])"
    by (simp add: timeValue_def)
  ultimately show ?thesis by simp
qed

text \<open>
  With at least three points the order is kept: the source indices of the sampled
  points start at 0, increase strictly, end at the last index, and the output is a
  subsequence of the input.
\<close>

lemma lttbLoop_buckets:
  assumes "\<forall>i. bucketStart bs i < bucketEnd bs i"
    and "lttbLoop b data xKey yKey bs is (s, p) = Inr (s', p')"
  shows "\<exists>ks. list_all2 (\<lambda>i k. bucketStart bs i \<le> k \<and> k < bucketEnd bs i) is ks
           \<and> s' = s @ map (arr_get data) ks"
  using assms(2)
proof (induction "is" arbitrary: s p)
  case Nil
  then show ?case by simp
next
  case (Cons i "is")
  from Cons.prems obtain k where
    k: "lttbSelect b data xKey yKey bs i p = Inr k"
    and rest: "lttbLoop b data xKey yKey bs is (s @ [arr_get data k], k) = Inr (s', p')"
    by (auto split: sum.splits)
  have "k = bucketStart bs i \<or> (bucketStart bs i \<le> k \<and> k < bucketEnd bs i)"
    using k by (rule lttbSelect_index)
  then have kb: "bucketStart bs i \<le> k \<and> k < bucketEnd bs i"
    using assms(1) by auto
  from Cons.IH[OF rest] obtain ks where
    "list_all2 (\<lambda>i k. bucketStart bs i \<le> k \<and> k < bucketEnd bs i) is ks"
    "s' = (s @ [arr_get data k]) @ map (arr_get data) ks" by blast
  then have "list_all2 (\<lambda>i k. bucketStart bs i \<le> k \<and> k < bucketEnd bs i) (i # is) (k # ks)
      \<and> s' = s @ map (arr_get data) (k # ks)"
    using kb by simp
  then show ?case by blast
qed

lemma subseq_nth_drop:
  assumes "sorted_wrt (<) ns" and "\<forall>i\<in>set ns. k \<le> i \<and> i < length xs"
  shows "subseq (map ((!) xs) ns) (drop k xs)"
  using assms
proof (induction ns arbitrary: k)
  case Nil
  then show ?case by simp
next
  case (Cons i ns)
  have i: "k \<le> i" "i < length xs" using Cons.prems(2) by simp_all
  have "\<forall>j\<in>set ns. Suc i \<le> j \<and> j < length xs"
    using Cons.prems by auto
  moreover have "sorted_wrt (<) ns" using Cons.prems(1) by simp
  ultimately have "subseq (map ((!) xs) ns) (drop (Suc i) xs)"
    by (rule Cons.IH[rotated])
  then have "subseq (xs ! i # map ((!) xs) ns) (xs ! i # drop (Suc i) xs)"
    by simp
  then have a: "subseq (map ((!) xs) (i # ns)) (drop i xs)"
    using i(2) by (simp add: Cons_nth_drop_Suc)
  have "drop i xs = drop (i - k) (drop k xs)" using i(1) by simp
  then have "suffix (drop i xs) (drop k xs)" by (metis suffix_drop)
  then have "subseq (drop i xs) (drop k xs)" by (rule suffix_imp_subseq)
  with a show ?case by (rule subseq_order.trans)
qed

lemma subseq_nth:
  assumes "sorted_wrt (<) ns" and "\<forall>i\<in>set ns. i < length xs"
  shows "subseq (map ((!) xs) ns) xs"
  using subseq_nth_drop[of ns 0 xs] assms by simp

lemma downsampleLTTB_order:
  assumes "thr < int (length data)" and "3 \<le> length data"
    and "downsampleLTTB b data thr xKey yKey = Inr out"
  shows "\<exists>js. out = map (arr_get data) js \<and> sorted_wrt (<) js
           \<and> hd js = 0 \<and> last js = int (length data) - 1
           \<and> (\<forall>j\<in>set js. 0 \<le> j \<and> j < int (length data))
           \<and> subseq out (map Some data)"
proof -
  let ?t = "max 3 thr"
  let ?bs = "bucketSize (length data) ?t"
  let ?k = "nat (?t - 2)"
  let ?n = "int (length data)"
  have t3: "3 \<le> ?t" by simp
  have tn: "?t \<le> ?n" using assms(1,2) by simp
  have ge1: "1 \<le> ?bs" using t3 tn by (rule bucketSize_ge_1)
  then have nn: "0 \<le> ?bs" by simp
  have ne: "\<forall>i. bucketStart ?bs i < bucketEnd ?bs i"
    unfolding bucketEnd_Suc using bucketStart_strict[OF ge1] by simp
  obtain xk where xk: "resolveXKey data xKey = Inr xk"
    using assms(1,3) by (cases "resolveXKey data xKey") (auto simp: downsampleLTTB_def)
  obtain yk where yk: "resolveYKey data xk yKey = Inr yk"
    using assms(1,3) xk by (cases "resolveYKey data xk yKey") (auto simp: downsampleLTTB_def)
  let ?loop = "lttbLoop b data xk yk ?bs [0..<?k] ([arr_get data 0], 0)"
  from assms(3) obtain s p where loop: "?loop = Inr (s, p)"
    and out: "out = s @ [arr_get data (?n - 1)]"
    unfolding downsampleLTTB_sampling[OF assms(1) xk yk]
    by (cases ?loop) auto
  from lttbLoop_buckets[OF ne loop] obtain ks where
    la: "list_all2 (\<lambda>i k. bucketStart ?bs i \<le> k \<and> k < bucketEnd ?bs i) [0..<?k] ks"
    and s: "s = [arr_get data 0] @ map (arr_get data) ks"
    by blast
  have len: "length ks = ?k" using la by (simp add: list_all2_lengthD[symmetric])
  have nth: "bucketStart ?bs m \<le> ks ! m \<and> ks ! m < bucketStart ?bs (Suc m)" if "m < ?k" for m
    using list_all2_nthD[OF la, of m] that by (simp add: bucketEnd_Suc)
  have lo: "0 < x" and hi: "x < ?n - 1" if "x \<in> set ks" for x
  proof -
    from that obtain m where m: "m < ?k" "x = ks ! m" using len by (auto simp: in_set_conv_nth)
    have "1 \<le> bucketStart ?bs m" using nn by (rule bucketStart_ge_1)
    then show "0 < x" using nth[OF m(1)] m(2) by simp
    have "bucketStart ?bs (Suc m) \<le> ?n - 1"
      using t3 assms(2) m(1) by (intro bucketStart_le_last) auto
    then show "x < ?n - 1" using nth[OF m(1)] m(2) by simp
  qed
  have srt: "sorted_wrt (<) ks"
  proof (unfold sorted_wrt_iff_nth_less, intro allI impI)
    fix i j assume ij: "i < j" "j < length ks"
    then have "ks ! i < bucketStart ?bs (Suc i)" using nth[of i] len by simp
    also have "\<dots> \<le> bucketStart ?bs j" using nn ij(1) by (intro bucketStart_mono) auto
    also have "\<dots> \<le> ks ! j" using nth[of j] ij(2) len by simp
    finally show "ks ! i < ks ! j" .
  qed
  let ?js = "0 # ks @ [?n - 1]"
  have sj: "sorted_wrt (<) ?js"
    using srt lo hi assms(2) by (auto simp: sorted_wrt_append)
  have rng: "\<forall>j\<in>set ?js. 0 \<le> j \<and> j < ?n"
    using lo hi assms(2) by fastforce
  have o: "out = map (arr_get data) ?js" using out s by simp
  have e: "map (arr_get data) ?js = map Some (map ((!) data) (map nat ?js))"
    using rng by (simp add: arr_get_def)
  have "subseq (map ((!) data) (map nat ?js)) data"
  proof (rule subseq_nth)
    show "sorted_wrt (<) (map nat ?js)"
      unfolding sorted_wrt_map
      using sj rng by (elim sorted_wrt_mono_rel[rotated]) auto
    show "\<forall>i\<in>set (map nat ?js). i < length data"
      using rng by (auto simp: nat_less_iff)
  qed
  then have "subseq (map Some (map ((!) data) (map nat ?js))) (map Some data)"
    by (rule subseq_map)
  then have sub: "subseq out (map Some data)"
    by (simp only: o e)
  have "hd ?js = 0 \<and> last ?js = ?n - 1" by simp
  then show ?thesis using o sj rng sub by blast
qed

section \<open>The next bucket\<close>








section \<open>\<open>sampleData\<close> against \<open>downsampleLTTB\<close>\<close>
























section \<open>The marker policy\<close>

text \<open>
  Claim C10. \<open>shouldShowDots\<close> answers true exactly for a length of at most 100; it
  is true at 100 and false at 101.
\<close>

theorem shouldShowDots_iff:
  "shouldShowDots originalLength = (originalLength \<le> 100)
   \<and> shouldShowDots 100 \<and> \<not> shouldShowDots 101"
  by (simp add: shouldShowDots_def)

end
